theory Spec2Isabelle
  imports Main "HOL-Library.Multiset"
begin

section \<open>Python strings\<close>

text \<open>
  A Python \<open>str\<close> is modelled as a \<open>string\<close>, one \<open>char\<close> per code point, for texts
  whose code points are below 256. \<open>isspace\<close> is the set of those code points that
  \<open>str.isspace\<close>, \<open>str.strip()\<close> and the regular expression class \<open>\s\<close> treat as
  whitespace: tab, line feed, vertical tab, form feed, carriage return, the four
  separators 28..31, space, NEL (133) and the no-break space (160).
\<close>

definition isspace :: "char \<Rightarrow> bool" where
  "isspace c =
     (let n = (of_char c :: nat)
      in (9 \<le> n \<and> n \<le> 13) \<or> (28 \<le> n \<and> n \<le> 32) \<or> n = 133 \<or> n = 160)"

text \<open>\<open>s.strip()\<close>: whitespace removed at both ends.\<close>

definition lstrip :: "string \<Rightarrow> string" where
  "lstrip s = dropWhile isspace s"

definition rstrip :: "string \<Rightarrow> string" where
  "rstrip s = rev (dropWhile isspace (rev s))"

definition strip :: "string \<Rightarrow> string" where
  "strip s = rstrip (lstrip s)"

text \<open>\<open>re.sub(r'\s+', ' ', text)\<close>: every maximal run of whitespace becomes one space.\<close>

function re_sub_ws :: "string \<Rightarrow> string" where
  "re_sub_ws [] = []"
| "re_sub_ws (c # cs) =
     (if isspace c then CHR '' '' # re_sub_ws (dropWhile isspace cs)
      else c # re_sub_ws cs)"
  by pat_completeness auto
termination
  by (relation "measure length") (auto simp: length_dropWhile_le less_Suc_eq_le)

text \<open>\<open>text.replace(old, ' ')\<close> for a one-character \<open>old\<close>.\<close>

definition replace_char :: "char \<Rightarrow> char \<Rightarrow> string \<Rightarrow> string" where
  "replace_char old new s = map (\<lambda>c. if c = old then new else c) s"

text \<open>
  \<open>text.split('.')\<close>: the pieces between the occurrences of the separator; a text
  with \<open>n\<close> separators gives \<open>n + 1\<close> pieces, and the empty text gives one empty piece.
\<close>

function split_on :: "char \<Rightarrow> string \<Rightarrow> string list" where
  "split_on sep s =
     (case dropWhile (\<lambda>c. c \<noteq> sep) s of
        [] \<Rightarrow> [s]
      | _ # rest \<Rightarrow> takeWhile (\<lambda>c. c \<noteq> sep) s # split_on sep rest)"
  by pat_completeness auto
termination
proof (relation "measure (\<lambda>(sep, s). length s)")
  show "wf (measure (\<lambda>(sep, s). length s))" by simp
next
  fix sep :: char and s :: string and x rest
  assume "dropWhile (\<lambda>c. c \<noteq> sep) s = x # rest"
  then have "length (x # rest) \<le> length s"
    using length_dropWhile_le [of "\<lambda>c. c \<noteq> sep" s] by simp
  then show "((sep, rest), (sep, s)) \<in> measure (\<lambda>(sep, s). length s)" by simp
qed

declare split_on.simps [simp del]

text \<open>
  \<open>s.lower()\<close> on code points below 256: the ASCII capitals and the Latin-1 capitals
  192..222 (without the multiplication sign 215) move up by 32.
\<close>

definition lower_char :: "char \<Rightarrow> char" where
  "lower_char c =
     (let n = (of_char c :: nat)
      in if (65 \<le> n \<and> n \<le> 90) \<or> (192 \<le> n \<and> n \<le> 222 \<and> n \<noteq> 215)
         then char_of (n + 32) else c)"

definition lower :: "string \<Rightarrow> string" where
  "lower s = map lower_char s"

text \<open>\<open>text.split()\<close> without a separator: the maximal runs of non-whitespace.\<close>

function py_split :: "string \<Rightarrow> string list" where
  "py_split s =
     (case dropWhile isspace s of
        [] \<Rightarrow> []
      | c # cs \<Rightarrow>
          (c # takeWhile (\<lambda>x. \<not> isspace x) cs) # py_split (dropWhile (\<lambda>x. \<not> isspace x) cs))"
  by pat_completeness auto
termination
proof (relation "measure length")
  show "wf (measure length)" by simp
next
  fix s :: string and c cs
  assume "dropWhile isspace s = c # cs"
  then have "length (c # cs) \<le> length s"
    using length_dropWhile_le [of isspace s] by simp
  moreover have "length (dropWhile (\<lambda>x. \<not> isspace x) cs) \<le> length cs"
    by (rule length_dropWhile_le)
  ultimately show "(dropWhile (\<lambda>x. \<not> isspace x) cs, s) \<in> measure length" by simp
qed

declare py_split.simps [simp del]


section \<open>The text chunker: \<open>TTSService._clean_text\<close>\<close>

definition max_length :: nat where
  "max_length = 500"

text \<open>
  The loop over the sentences: a sentence is appended, with its full stop, while the
  result so far plus the sentence is shorter than the limit; the first sentence that
  does not fit ends the loop.
\<close>

fun accumulate :: "nat \<Rightarrow> string \<Rightarrow> string list \<Rightarrow> string" where
  "accumulate L result [] = result"
| "accumulate L result (sentence # sentences) =
     (if length (result @ sentence) < L
      then accumulate L (result @ sentence @ ''.'') sentences
      else result)"

text \<open>The three whitespace steps that open \<open>_clean_text\<close>.\<close>

definition normalize_ws :: "string \<Rightarrow> string" where
  "normalize_ws text =
     replace_char (CHR 0x09) CHR '' '' (replace_char (CHR 0x0A) CHR '' '' (re_sub_ws text))"

definition clean_text :: "string \<Rightarrow> string" where
  "clean_text text0 =
     (let text = normalize_ws text0;
          text =
            (if length text > max_length then
               (let sentences = split_on CHR ''.'' text;
                    result = accumulate max_length [] sentences
                in if strip result \<noteq> [] then strip result else take max_length text)
             else text)
      in strip text)"

section \<open>Exceptions and HTTP responses\<close>

text \<open>
  An exception raised inside a route is either FastAPI's \<open>HTTPException\<close> with its
  status code, or some other Python exception. The services raise only the latter:
  they do not import \<open>HTTPException\<close>.
\<close>

datatype exn = ValueError | AttributeError | ImportError | NameError | RuntimeError

datatype raised = HTTPException nat | Exn exn

text \<open>What the client gets: the returned value, or the status of the final exception.\<close>

datatype 'a response = Ok 'a | Http nat

text \<open>
  The \<open>except\<close> chains of the routes, named by their clauses. \<open>HTTPException\<close> is a
  subclass of \<open>Exception\<close>: a chain without the clause \<open>except HTTPException: raise\<close>
  catches it in \<open>except Exception\<close> and answers 500.
\<close>

definition except_HTTPException_Exception :: "raised + 'a \<Rightarrow> 'a response" where
  "except_HTTPException_Exception r =
     (case r of
        Inr v \<Rightarrow> Ok v
      | Inl (HTTPException status) \<Rightarrow> Http status
      | Inl (Exn e) \<Rightarrow> Http 500)"

definition except_ValueError_HTTPException_Exception :: "raised + 'a \<Rightarrow> 'a response" where
  "except_ValueError_HTTPException_Exception r =
     (case r of
        Inr v \<Rightarrow> Ok v
      | Inl (Exn ValueError) \<Rightarrow> Http 400
      | Inl (HTTPException status) \<Rightarrow> Http status
      | Inl (Exn e) \<Rightarrow> Http 500)"

definition except_ValueError_Exception :: "raised + 'a \<Rightarrow> 'a response" where
  "except_ValueError_Exception r =
     (case r of
        Inr v \<Rightarrow> Ok v
      | Inl (Exn ValueError) \<Rightarrow> Http 400
      | Inl other \<Rightarrow> Http 500)"

definition except_Exception :: "raised + 'a \<Rightarrow> 'a response" where
  "except_Exception r = (case r of Inr v \<Rightarrow> Ok v | Inl other \<Rightarrow> Http 500)"

section \<open>The speech service: \<open>TTSService\<close>\<close>

type_synonym bytes = "char list"
type_synonym waveform = "int list"

text \<open>
  The engine \<open>self.tts.tts_with_preset(chunk, preset=preset, ...)\<close> is an external
  capability: a function from the chunk and the preset to a waveform, or an exception.
  The voice is only logged; \<open>voice_samples\<close> and \<open>conditioning_latents\<close> are \<open>None\<close>.
\<close>

type_synonym engine = "string \<Rightarrow> string \<Rightarrow> exn + waveform"

record tts_service =
  TORTOISE_AVAILABLE :: bool
  tts :: "engine option"

definition is_available :: "tts_service \<Rightarrow> bool" where
  "is_available self = (TORTOISE_AVAILABLE self \<and> tts self \<noteq> None)"

text \<open>
  The loop over the chunks. \<open>calls\<close> is the history of the engine's invocations, one
  entry (chunk, preset) per call; an exception of the engine ends the loop.
\<close>

fun synth_chunks ::
  "engine \<Rightarrow> string \<Rightarrow> string list \<Rightarrow> waveform list \<Rightarrow> (string \<times> string) list
     \<Rightarrow> (exn + waveform list) \<times> (string \<times> string) list" where
  "synth_chunks tts_with_preset preset [] audio_chunks calls = (Inr audio_chunks, calls)"
| "synth_chunks tts_with_preset preset (chunk # chunks) audio_chunks calls =
     (if strip chunk = [] then synth_chunks tts_with_preset preset chunks audio_chunks calls
      else
        (case tts_with_preset chunk preset of
           Inl e \<Rightarrow> (Inl e, calls @ [(chunk, preset)])
         | Inr gen \<Rightarrow>
             synth_chunks tts_with_preset preset chunks (audio_chunks @ [gen])
               (calls @ [(chunk, preset)])))"

text \<open>
  \<open>text_to_speech\<close>. The library functions \<open>split_and_recombine_text\<close> and
  \<open>_audio_to_bytes\<close> (which calls \<open>torchaudio.save\<close>) are parameters that may raise;
  \<open>torch.cat\<close> along the time axis is \<open>concat\<close>. Everything after the availability
  test runs inside \<open>try\<close>, and \<open>except Exception\<close> returns \<open>None\<close>.
\<close>

definition text_to_speech ::
  "(string \<Rightarrow> exn + string list) \<Rightarrow> (waveform \<Rightarrow> exn + bytes) \<Rightarrow> tts_service
     \<Rightarrow> string \<Rightarrow> string \<Rightarrow> string \<Rightarrow> (string \<times> string) list
     \<Rightarrow> bytes option \<times> (string \<times> string) list" where
  "text_to_speech split_and_recombine_text audio_to_bytes self text0 voice preset calls =
     (if \<not> is_available self then (None, calls)
      else
        (let text = clean_text text0 in
         if strip text = [] then (None, calls)
         else
           (case split_and_recombine_text text of
              Inl e \<Rightarrow> (None, calls)
            | Inr text_chunks \<Rightarrow>
                (case tts self of
                   None \<Rightarrow> (None, calls)
                 | Some tts_with_preset \<Rightarrow>
                     (case synth_chunks tts_with_preset preset text_chunks [] calls of
                        (Inl e, calls') \<Rightarrow> (None, calls')
                      | (Inr audio_chunks, calls') \<Rightarrow>
                          if audio_chunks = [] then (None, calls')
                          else
                            (let final_audio =
                                   (if length audio_chunks = 1 then hd audio_chunks
                                    else concat audio_chunks)
                             in case audio_to_bytes final_audio of
                                  Inl e \<Rightarrow> (None, calls')
                                | Inr audio_bytes \<Rightarrow> (Some audio_bytes, calls')))))))"

section \<open>The speech route: \<open>generate_tts\<close>\<close>

text \<open>
  \<open>get_tts_service\<close> imports the service module inside \<open>try\<close>; any exception of the
  import gives \<open>None\<close>. The outcome of the import is the parameter \<open>imported\<close>.
\<close>

definition get_tts_service :: "exn + tts_service \<Rightarrow> tts_service option" where
  "get_tts_service imported = (case imported of Inl e \<Rightarrow> None | Inr service \<Rightarrow> Some service)"

definition generate_tts ::
  "(string \<Rightarrow> exn + string list) \<Rightarrow> (waveform \<Rightarrow> exn + bytes) \<Rightarrow> exn + tts_service
     \<Rightarrow> string \<Rightarrow> string \<Rightarrow> string \<Rightarrow> (string \<times> string) list
     \<Rightarrow> bytes response \<times> (string \<times> string) list" where
  "generate_tts split_and_recombine_text audio_to_bytes imported text0 voice preset calls =
     (let body =
        (case get_tts_service imported of
           None \<Rightarrow> (Inl (HTTPException 503), calls)
         | Some service \<Rightarrow>
             if \<not> is_available service then (Inl (HTTPException 503), calls)
             else if length (strip text0) = 0 then (Inl (HTTPException 400), calls)
             else if length text0 > 1000 then (Inl (HTTPException 400), calls)
             else
               (case text_to_speech split_and_recombine_text audio_to_bytes service
                       text0 voice preset calls of
                  (None, calls') \<Rightarrow> (Inl (HTTPException 500), calls')
                | (Some audio_bytes, calls') \<Rightarrow>
                    if audio_bytes = [] then (Inl (HTTPException 500), calls')
                    else (Inr audio_bytes, calls')))
      in (except_HTTPException_Exception (fst body), snd body))"

section \<open>The books table and its routes\<close>

type_synonym uuid = nat
type_synonym timestamp = nat
type_synonym position = "(string \<times> string) list"

record page =
  page_number :: nat
  page_content :: string
  word_count :: nat

record book_chapter =
  ch_id :: string
  ch_title :: string
  ch_content :: string
  ch_word_count :: nat

text \<open>
  A row of \<open>books\<close>, with the two lists of its \<open>metadata\<close> column (\<open>chapters\<close> for an
  EPUB, \<open>pages\<close> for a PDF; a missing list reads as empty). The columns that the
  routes below only copy (\<open>title\<close>, \<open>author\<close>, \<open>file_path\<close>, \<open>file_size\<close>,
  \<open>cover_image\<close>, \<open>upload_date\<close>) are left out.
\<close>

record book =
  b_id :: uuid
  b_file_type :: string
  b_last_read :: "timestamp option"
  b_current_position :: "position option"
  b_chapters :: "book_chapter list"
  b_pages :: "page list"

subsection \<open>\<open>BookService._process_pdf\<close>: the pages\<close>

text \<open>
  The loop \<open>for page_num, page in enumerate(pdf_reader.pages)\<close> over the texts the
  reader extracts, one per page of the container; \<open>page_num\<close> starts at 0.
\<close>

fun extract_pages :: "nat \<Rightarrow> string list \<Rightarrow> page list" where
  "extract_pages page_num [] = []"
| "extract_pages page_num (text # rest) =
     (if strip text \<noteq> []
      then \<lparr>page_number = page_num + 1, page_content = text,
            word_count = length (py_split text)\<rparr> # extract_pages (page_num + 1) rest
      else extract_pages (page_num + 1) rest)"

definition process_pdf_pages :: "string list \<Rightarrow> page list" where
  "process_pdf_pages texts = extract_pages 0 texts"

subsection \<open>\<open>upload_book\<close>\<close>

definition file_ext :: "string \<Rightarrow> string" where
  "file_ext filename = last (split_on CHR ''.'' (lower filename))"

text \<open>
  \<open>process\<close> is \<open>book_service.process_uploaded_file\<close> and \<open>insert_book\<close> the insertion
  into the table; both may raise. \<open>filename\<close> is \<open>None\<close> when the upload names no file.
\<close>

definition upload_book ::
  "(bytes \<Rightarrow> string \<Rightarrow> exn + 'b) \<Rightarrow> ('b \<Rightarrow> exn + unit) \<Rightarrow> string option \<Rightarrow> bytes
     \<Rightarrow> 'b response" where
  "upload_book process insert_book filename content =
     except_HTTPException_Exception
       (case filename of
          None \<Rightarrow> Inl (HTTPException 400)
        | Some name \<Rightarrow>
            if name = [] then Inl (HTTPException 400)
            else if file_ext name \<notin> set [''epub'', ''pdf''] then Inl (HTTPException 400)
            else if length content = 0 then Inl (HTTPException 400)
            else if length content > 100 * 1024 * 1024 then Inl (HTTPException 400)
            else
              (case process content name of
                 Inl e \<Rightarrow> Inl (Exn e)
               | Inr book_data \<Rightarrow>
                   (case insert_book book_data of
                      Inl e \<Rightarrow> Inl (Exn e)
                    | Inr u \<Rightarrow> Inr book_data)))"

subsection \<open>\<open>get_book_content\<close>\<close>

datatype content_reply =
    ChapterReply book_chapter
  | TocReply "(string \<times> string \<times> nat) list"
  | PageReply page
  | PdfInfoReply "(nat \<times> nat) list" nat
  | NoneReply

text \<open>
  \<open>UUID\<close> is \<open>uuid.UUID\<close>: \<open>None\<close> stands for its \<open>ValueError\<close> on a malformed id.
  \<open>fetch_one\<close> is the first row that matches.
\<close>

definition get_book_content ::
  "(string \<Rightarrow> uuid option) \<Rightarrow> book list \<Rightarrow> string \<Rightarrow> string option \<Rightarrow> int option
     \<Rightarrow> content_reply response" where
  "get_book_content UUID db bid chapter_arg page_arg =
     except_ValueError_HTTPException_Exception
       (case UUID bid of
          None \<Rightarrow> Inl (Exn ValueError)
        | Some u \<Rightarrow>
            (case find (\<lambda>b. b_id b = u) db of
               None \<Rightarrow> Inl (HTTPException 404)
             | Some book_result \<Rightarrow>
                 if b_file_type book_result = ''epub'' then
                   (let chapters = b_chapters book_result;
                        toc = TocReply (map (\<lambda>ch. (ch_id ch, ch_title ch, ch_word_count ch)) chapters)
                    in case chapter_arg of
                         None \<Rightarrow> Inr toc
                       | Some cid \<Rightarrow>
                           if cid = [] then Inr toc
                           else
                             (case find (\<lambda>ch. ch_id ch = cid) chapters of
                                None \<Rightarrow> Inl (HTTPException 404)
                              | Some ch \<Rightarrow> Inr (ChapterReply ch)))
                 else if b_file_type book_result = ''pdf'' then
                   (let pages = b_pages book_result
                    in case page_arg of
                         Some p \<Rightarrow>
                           if p < 1 \<or> p > int (length pages) then Inl (HTTPException 404)
                           else Inr (PageReply (pages ! nat (p - 1)))
                       | None \<Rightarrow>
                           Inr (PdfInfoReply (map (\<lambda>pg. (page_number pg, word_count pg)) pages)
                                  (length pages)))
                 else Inr NoneReply))"

subsection \<open>\<open>update_reading_position\<close>\<close>

text \<open>
  \<open>database.execute\<close> of an \<open>UPDATE\<close> or a \<open>DELETE\<close>: the rows that satisfy the
  \<open>where\<close> clause are rewritten or removed. The value returned is the driver's.
  \<open>DATABASE_URL\<close> names PostgreSQL, where the \<open>databases\<close> library runs a statement
  with \<open>fetchval\<close> of asyncpg: the first column of the first row the statement returns.
  These statements have no \<open>RETURNING\<close> clause and return no row, so the value is
  Python's \<open>None\<close>, whatever the number of rows affected; \<open>Some n\<close> stands for an integer.
\<close>

definition execute_update ::
  "('r \<Rightarrow> bool) \<Rightarrow> ('r \<Rightarrow> 'r) \<Rightarrow> 'r list \<Rightarrow> int option \<times> 'r list" where
  "execute_update cond vals rows = (None, map (\<lambda>r. if cond r then vals r else r) rows)"

definition execute_delete :: "('r \<Rightarrow> bool) \<Rightarrow> 'r list \<Rightarrow> int option \<times> 'r list" where
  "execute_delete cond rows = (None, filter (\<lambda>r. \<not> cond r) rows)"

text \<open>
  \<open>database.func.now()\<close>: \<open>database\<close> is the \<open>Database\<close> object that \<open>database.py\<close>
  creates, and \<open>func\<close> is a global name of that module, not an attribute of the
  object. The attribute lookup raises \<open>AttributeError\<close>, after \<open>uuid.UUID(book_id)\<close>
  has been evaluated and before the statement is built.
\<close>

definition database_func_now :: "exn + timestamp" where
  "database_func_now = Inl AttributeError"

definition update_reading_position ::
  "(string \<Rightarrow> uuid option) \<Rightarrow> book list \<Rightarrow> string \<Rightarrow> position
     \<Rightarrow> unit response \<times> book list" where
  "update_reading_position UUID db bid pos =
     (let body =
        (case UUID bid of
           None \<Rightarrow> (Inl (Exn ValueError), db)
         | Some u \<Rightarrow>
             (case database_func_now of
                Inl e \<Rightarrow> (Inl (Exn e), db)
              | Inr now \<Rightarrow>
                  (case execute_update (\<lambda>b. b_id b = u)
                          (\<lambda>b. b\<lparr>b_current_position := Some pos, b_last_read := Some now\<rparr>)
                          db of
                     (result, db') \<Rightarrow>
                       if result = Some 0 then (Inl (HTTPException 404), db')
                       else (Inr (), db'))))
      in (except_ValueError_Exception (fst body), snd body))"

section \<open>The highlights table and its routes\<close>

text \<open>
  A row of \<open>highlights\<close>; the two locator columns \<open>start_position\<close> and
  \<open>end_position\<close>, which the routes only copy, are left out.
\<close>

record highlight =
  h_id :: uuid
  h_book_id :: uuid
  h_text_content :: string
  h_color :: string
  h_note :: "string option"
  h_created_at :: timestamp

text \<open>
  \<open>ORDER BY created_at ASC\<close> and \<open>DESC\<close>. The routes copy each row, field by field,
  into the reply, in the order of the query; the reply is modelled by the rows.
\<close>

definition order_by_asc :: "('r \<Rightarrow> timestamp) \<Rightarrow> 'r list \<Rightarrow> 'r list" where
  "order_by_asc col rows = sort_key col rows"

definition order_by_desc :: "('r \<Rightarrow> timestamp) \<Rightarrow> 'r list \<Rightarrow> 'r list" where
  "order_by_desc col rows = rev (sort_key col rows)"

definition get_book_highlights ::
  "(string \<Rightarrow> uuid option) \<Rightarrow> highlight list \<Rightarrow> string \<Rightarrow> highlight list response" where
  "get_book_highlights UUID db bid =
     except_ValueError_Exception
       (case UUID bid of
          None \<Rightarrow> Inl (Exn ValueError)
        | Some u \<Rightarrow> Inr (order_by_asc h_created_at (filter (\<lambda>h. h_book_id h = u) db)))"

definition get_all_highlights :: "highlight list \<Rightarrow> highlight list response" where
  "get_all_highlights db = except_Exception (Inr (order_by_desc h_created_at db))"

definition delete_highlight ::
  "(string \<Rightarrow> uuid option) \<Rightarrow> highlight list \<Rightarrow> string \<Rightarrow> unit response \<times> highlight list" where
  "delete_highlight UUID db highlight_id =
     (let body =
        (case UUID highlight_id of
           None \<Rightarrow> (Inl (Exn ValueError), db)
         | Some u \<Rightarrow>
             (case execute_delete (\<lambda>h. h_id h = u) db of
                (result, db') \<Rightarrow>
                  if result = Some 0 then (Inl (HTTPException 404), db')
                  else (Inr (), db')))
      in (except_ValueError_Exception (fst body), snd body))"

section \<open>Properties of the text chunker\<close>

lemma split_on_not_Nil: "split_on sep s \<noteq> []"
  by (subst split_on.simps) (simp split: list.split)

lemma hd_split_on: "hd (split_on sep s) = takeWhile (\<lambda>c. c \<noteq> sep) s"
proof (cases "dropWhile (\<lambda>c. c \<noteq> sep) s")
  case Nil
  then have tw: "takeWhile (\<lambda>c. c \<noteq> sep) s = s"
    by (simp add: dropWhile_eq_Nil_conv takeWhile_eq_all_conv)
  show ?thesis
    by (subst split_on.simps, subst Nil) (simp add: tw)
next
  case (Cons x rest)
  show ?thesis
    by (subst split_on.simps, subst Cons) simp
qed

lemma lstrip_idem: "lstrip (lstrip s) = lstrip s"
  by (simp add: lstrip_def dropWhile_idem)

lemma rstrip_prefix: "rstrip y @ rev (takeWhile isspace (rev y)) = y"
proof -
  have "rev (takeWhile isspace (rev y) @ dropWhile isspace (rev y)) = y"
    by simp
  then show ?thesis
    unfolding rstrip_def rev_append .
qed

lemma lstrip_rstrip_lstrip: "lstrip (rstrip (lstrip s)) = rstrip (lstrip s)"
proof (cases "rstrip (lstrip s)")
  case Nil
  then show ?thesis by (simp add: lstrip_def)
next
  case (Cons a as)
  then have "lstrip s = a # as @ rev (takeWhile isspace (rev (lstrip s)))"
    using rstrip_prefix [of "lstrip s"] by simp
  then have "hd (lstrip s) = a" and "lstrip s \<noteq> []"
    by (metis list.sel(1), metis list.distinct(1))
  then have "\<not> isspace a"
    unfolding lstrip_def using hd_dropWhile [of isspace s] by blast
  then show ?thesis
    using Cons by (simp add: lstrip_def)
qed

lemma rstrip_idem: "rstrip (rstrip s) = rstrip s"
  by (simp add: rstrip_def dropWhile_idem)

lemma strip_idem: "strip (strip s) = strip s"
  by (simp add: strip_def lstrip_rstrip_lstrip rstrip_idem)

lemma strip_Nil: "strip [] = []"
  by (simp add: strip_def lstrip_def rstrip_def)


lemma length_strip_le: "length (strip s) \<le> length s"
  unfolding strip_def lstrip_def rstrip_def
  by (metis length_dropWhile_le length_rev le_trans)

lemma length_accumulate_le:
  "length result \<le> L \<Longrightarrow> length (accumulate L result ss) \<le> L"
  by (induction ss arbitrary: result) auto

lemma accumulate_split:
  "(length (r @ t) < L \<and> accumulate L r (split_on CHR ''.'' t) = r @ t @ ''.'')
   \<or> (\<exists>k. accumulate L r (split_on CHR ''.'' t) = r @ take k t)"
proof (induction "CHR ''.''" t arbitrary: r rule: split_on.induct)
  case (1 s)
  show ?case
  proof (cases "dropWhile (\<lambda>c. c \<noteq> CHR ''.'') s")
    case Nil
    have sp: "split_on CHR ''.'' s = [s]" by (subst split_on.simps, subst Nil, simp)
    show ?thesis
    proof (cases "length (r @ s) < L")
      case True
      then show ?thesis using sp by simp
    next
      case False
      then have "accumulate L r (split_on CHR ''.'' s) = r @ take 0 s" using sp by simp
      then show ?thesis by blast
    qed
  next
    case (Cons x rest)
    let ?h = "takeWhile (\<lambda>c. c \<noteq> CHR ''.'') s"
    have x: "x = CHR ''.''"
      using Cons hd_dropWhile [of "\<lambda>c. c \<noteq> CHR ''.''" s] by (metis list.distinct(1) list.sel(1))
    have s: "s = ?h @ CHR ''.'' # rest"
      using Cons x takeWhile_dropWhile_id [of "\<lambda>c. c \<noteq> CHR ''.''" s] by simp
    have sp: "split_on CHR ''.'' s = ?h # split_on CHR ''.'' rest"
      by (subst split_on.simps, subst Cons, simp)
    show ?thesis
    proof (cases "length (r @ ?h) < L")
      case False
      then have "accumulate L r (split_on CHR ''.'' s) = r @ take 0 s" using sp by simp
      then show ?thesis by blast
    next
      case True
      then have acc: "accumulate L r (split_on CHR ''.'' s) =
          accumulate L (r @ ?h @ ''.'') (split_on CHR ''.'' rest)"
        using sp by simp
      from "1" [OF Cons, of "r @ ?h @ ''.''"]
      show ?thesis
      proof
        assume a: "length ((r @ ?h @ ''.'') @ rest) < L \<and>
          accumulate L (r @ ?h @ ''.'') (split_on CHR ''.'' rest) = (r @ ?h @ ''.'') @ rest @ ''.''"
        have "(r @ ?h @ ''.'') @ rest = r @ s" using s by (metis append.assoc append_Cons append_Nil)
        then show ?thesis using a acc by (metis append.assoc)
      next
        assume "\<exists>k. accumulate L (r @ ?h @ ''.'') (split_on CHR ''.'' rest) = (r @ ?h @ ''.'') @ take k rest"
        then obtain k where k: "accumulate L (r @ ?h @ ''.'') (split_on CHR ''.'' rest) = (r @ ?h @ ''.'') @ take k rest"
          by blast
        have "take (length ?h + 1 + k) s = ?h @ ''.'' @ take k rest"
          by (subst s) simp
        then have "accumulate L r (split_on CHR ''.'' s) = r @ take (length ?h + 1 + k) s"
          using acc k by simp
        then show ?thesis by blast
      qed
    qed
  qed
qed


lemma accumulate_take:
  assumes "L < length t"
  shows "\<exists>k\<le>L. accumulate L [] (split_on CHR ''.'' t) = take k t"
proof -
  let ?res = "accumulate L [] (split_on CHR ''.'' t)"
  from accumulate_split [of "[]" t L] assms obtain k where k: "?res = take k t"
    by auto
  have "length ?res \<le> L" by (rule length_accumulate_le) simp
  moreover have "take (length ?res) t = ?res"
    by (subst (2) k, subst k) (simp add: min_def)
  ultimately show ?thesis by metis
qed

lemma clean_text_take:
  "\<exists>k\<le>max_length. clean_text t = strip (take k (normalize_ws t))"
proof (cases "max_length < length (normalize_ws t)")
  case False
  then have "clean_text t = strip (take max_length (normalize_ws t))"
    by (simp add: clean_text_def)
  then show ?thesis by blast
next
  case True
  from accumulate_take [OF True] obtain k where
    k: "k \<le> max_length" "accumulate max_length [] (split_on CHR ''.'' (normalize_ws t)) = take k (normalize_ws t)"
    by blast
  show ?thesis
  proof (cases "strip (take k (normalize_ws t)) = []")
    case True
    then have "clean_text t = strip (take max_length (normalize_ws t))"
      using \<open>max_length < length (normalize_ws t)\<close> k by (simp add: clean_text_def)
    then show ?thesis by blast
  next
    case False
    then have "clean_text t = strip (take k (normalize_ws t))"
      using \<open>max_length < length (normalize_ws t)\<close> k by (simp add: clean_text_def strip_idem)
    then show ?thesis using k(1) by blast
  qed
qed

lemma length_clean_text_le: "length (clean_text t) \<le> max_length"
proof -
  from clean_text_take [of t] obtain k where
    k: "k \<le> max_length" "clean_text t = strip (take k (normalize_ws t))"
    by blast
  have "length (strip (take k (normalize_ws t))) \<le> length (take k (normalize_ws t))"
    by (rule length_strip_le)
  also have "\<dots> \<le> k" by simp
  finally show ?thesis using k by simp
qed

lemma clean_text_short:
  "length (normalize_ws t) \<le> max_length \<Longrightarrow> clean_text t = strip (normalize_ws t)"
  by (simp add: clean_text_def)

lemma clean_text_long_sentence:
  assumes "max_length < length (normalize_ws t)"
    and "max_length \<le> length (hd (split_on CHR ''.'' (normalize_ws t)))"
  shows "clean_text t = strip (take max_length (normalize_ws t))"
proof -
  obtain s ss where sp: "split_on CHR ''.'' (normalize_ws t) = s # ss"
    using split_on_not_Nil by (cases "split_on CHR ''.'' (normalize_ws t)") auto
  then have "accumulate max_length [] (split_on CHR ''.'' (normalize_ws t)) = []"
    using assms(2) by simp
  then show ?thesis
    using assms(1) by (simp add: clean_text_def strip_Nil)
qed

lemma re_sub_ws_id: "\<forall>c\<in>set s. \<not> isspace c \<Longrightarrow> re_sub_ws s = s"
  by (induction s) auto

lemma not_isspace_a: "\<not> isspace CHR ''a''"
  by (simp add: isspace_def)

lemma normalize_ws_replicate_a: "normalize_ws (replicate n CHR ''a'') = replicate n CHR ''a''"
  by (simp add: normalize_ws_def re_sub_ws_id not_isspace_a replace_char_def)

lemma strip_replicate_a: "strip (replicate n CHR ''a'') = replicate n CHR ''a''"
  by (simp add: strip_def lstrip_def rstrip_def dropWhile_replicate not_isspace_a)

lemma clean_text_replicate_a:
  "clean_text (replicate 501 CHR ''a'') = replicate 500 CHR ''a''"
proof -
  have "clean_text (replicate 501 CHR ''a'')
      = strip (take max_length (normalize_ws (replicate 501 CHR ''a'')))"
    by (rule clean_text_long_sentence)
      (simp_all add: normalize_ws_replicate_a hd_split_on max_length_def)
  then show ?thesis
    by (simp add: normalize_ws_replicate_a max_length_def strip_replicate_a)
qed


lemma strip_eq_Nil_iff: "strip s = [] \<longleftrightarrow> (\<forall>c\<in>set s. isspace c)"
proof
  assume "strip s = []"
  then have "\<forall>c\<in>set (lstrip s). isspace c"
    by (simp add: strip_def rstrip_def dropWhile_eq_Nil_conv)
  moreover have "lstrip s = [] \<or> \<not> isspace (hd (lstrip s))"
    unfolding lstrip_def using hd_dropWhile [of isspace s] by blast
  ultimately have "lstrip s = []"
    by (cases "lstrip s") auto
  then show "\<forall>c\<in>set s. isspace c"
    by (simp add: lstrip_def dropWhile_eq_Nil_conv)
next
  assume "\<forall>c\<in>set s. isspace c"
  then have "lstrip s = []"
    by (simp add: lstrip_def dropWhile_eq_Nil_conv)
  then show "strip s = []"
    by (simp add: strip_def rstrip_def)
qed

lemma set_accumulate: "x \<in> set r \<Longrightarrow> x \<in> set (accumulate L r ss)"
  by (induction ss arbitrary: r) auto

lemma not_isspace_dot: "\<not> isspace CHR ''.''"
  by (simp add: isspace_def)

lemma clean_text_fitting_sentence:
  assumes "max_length < length (normalize_ws t)"
    and "length (hd (split_on CHR ''.'' (normalize_ws t))) < max_length"
  shows "clean_text t = strip (accumulate max_length [] (split_on CHR ''.'' (normalize_ws t)))"
proof -
  obtain s ss where sp: "split_on CHR ''.'' (normalize_ws t) = s # ss"
    using split_on_not_Nil by (cases "split_on CHR ''.'' (normalize_ws t)") auto
  let ?res = "accumulate max_length [] (split_on CHR ''.'' (normalize_ws t))"
  have "?res = accumulate max_length (s @ ''.'') ss"
    using assms(2) sp by simp
  then have "CHR ''.'' \<in> set ?res"
    using set_accumulate [of "CHR ''.''" "s @ ''.''" max_length ss] by simp
  then have "strip ?res \<noteq> []"
    using not_isspace_dot by (auto simp: strip_eq_Nil_iff)
  then show ?thesis
    using assms(1) by (simp add: clean_text_def strip_idem)
qed

text \<open>
  C2, as amended: the chunker returns, stripped, a prefix of at most 500 characters of
  the whitespace-normalized text; a normalized text of at most 500 characters is
  returned whole (stripped). What follows the prefix is not part of the output.
\<close>

theorem clean_text_keeps_prefix:
  "(\<exists>k\<le>500. clean_text t = strip (take k (normalize_ws t))) \<and>
   (length (normalize_ws t) \<le> 500 \<longrightarrow> clean_text t = strip (normalize_ws t))"
  using clean_text_take [of t] clean_text_short [of t]
  by (simp add: max_length_def)

lemma normalize_ws_hello:
  "normalize_ws ''  Hello   world.  Bye '' = '' Hello world. Bye ''"
  by code_simp

lemma strip_hello: "strip '' Hello world. Bye '' = ''Hello world. Bye''"
  by code_simp

theorem clean_text_keeps_prefix_witness:
  "length (normalize_ws ''  Hello   world.  Bye '') \<le> 500 \<and>
   clean_text ''  Hello   world.  Bye '' = ''Hello world. Bye''"
proof -
  have h: "length (normalize_ws ''  Hello   world.  Bye '') \<le> 500"
    by (simp add: normalize_ws_hello)
  from clean_text_keeps_prefix [of "''  Hello   world.  Bye ''"] h
  have "clean_text ''  Hello   world.  Bye '' = strip (normalize_ws ''  Hello   world.  Bye '')"
    by blast
  then show ?thesis using h by (simp add: normalize_ws_hello strip_hello)
qed

text \<open>
  C2 as stated fails: of 501 letters the chunker keeps 500, so the output, normalized
  again, is not the normalized source.
\<close>

theorem clean_text_drops_text_counterexample:
  "clean_text (replicate 501 CHR ''a'') = replicate 500 CHR ''a'' \<and>
   normalize_ws (replicate 501 CHR ''a'') = replicate 501 CHR ''a'' \<and>
   normalize_ws (clean_text (replicate 501 CHR ''a'')) \<noteq> normalize_ws (replicate 501 CHR ''a'')"
proof -
  have "length (replicate 500 CHR ''a'') \<noteq> length (replicate 501 CHR ''a'')"
    by simp
  then have "replicate 500 CHR ''a'' \<noteq> replicate 501 CHR ''a''"
    by metis
  then show ?thesis
    by (simp only: clean_text_replicate_a normalize_ws_replicate_a) simp
qed

subsection \<open>The sentences the chunker keeps\<close>

lemma concat_split_on:
  "concat (map (\<lambda>s. s @ [sep]) (split_on sep t)) = t @ [sep]"
proof (induction sep t rule: split_on.induct)
  case (1 sep s)
  show ?case
  proof (cases "dropWhile (\<lambda>c. c \<noteq> sep) s")
    case Nil
    show ?thesis
      by (subst split_on.simps, subst Nil) simp
  next
    case (Cons x rest)
    have x: "x = sep"
      using Cons hd_dropWhile [of "\<lambda>c. c \<noteq> sep" s] by (metis list.distinct(1) list.sel(1))
    have s: "s = takeWhile (\<lambda>c. c \<noteq> sep) s @ sep # rest"
      using Cons x takeWhile_dropWhile_id [of "\<lambda>c. c \<noteq> sep" s] by simp
    have "concat (map (\<lambda>s. s @ [sep]) (split_on sep s))
        = takeWhile (\<lambda>c. c \<noteq> sep) s @ [sep] @ concat (map (\<lambda>s. s @ [sep]) (split_on sep rest))"
      by (subst split_on.simps, subst Cons) simp
    also have "\<dots> = takeWhile (\<lambda>c. c \<noteq> sep) s @ [sep] @ rest @ [sep]"
      using "1" [OF Cons] by simp
    also have "\<dots> = (takeWhile (\<lambda>c. c \<noteq> sep) s @ sep # rest) @ [sep]"
      by simp
    also have "\<dots> = s @ [sep]"
      by (simp only: s [symmetric])
    finally show ?thesis .
  qed
qed

lemma accumulate_greedy:
  "\<exists>k\<le>length ss.
      accumulate L r ss = r @ concat (map (\<lambda>s. s @ ''.'') (take k ss)) \<and>
      (\<forall>j<k. length r + length (concat (map (\<lambda>s. s @ ''.'') (take j ss))) + length (ss ! j) < L) \<and>
      (k < length ss \<longrightarrow>
         L \<le> length r + length (concat (map (\<lambda>s. s @ ''.'') (take k ss))) + length (ss ! k))"
proof (induction ss arbitrary: r)
  case Nil
  show ?case by simp
next
  case (Cons s ss)
  show ?case
  proof (cases "length (r @ s) < L")
    case False
    then have "accumulate L r (s # ss) = r @ concat (map (\<lambda>s. s @ ''.'') (take 0 (s # ss)))"
      and "L \<le> length r + length (concat (map (\<lambda>s. s @ ''.'') (take 0 (s # ss)))) + length ((s # ss) ! 0)"
      by simp_all
    then show ?thesis
      by (intro exI [of _ 0]) simp
  next
    case True
    from Cons.IH [of "r @ s @ ''.''"] obtain k where k: "k \<le> length ss"
      "accumulate L (r @ s @ ''.'') ss = (r @ s @ ''.'') @ concat (map (\<lambda>s. s @ ''.'') (take k ss))"
      "\<forall>j<k. length (r @ s @ ''.'') + length (concat (map (\<lambda>s. s @ ''.'') (take j ss))) + length (ss ! j) < L"
      "k < length ss \<longrightarrow>
         L \<le> length (r @ s @ ''.'') + length (concat (map (\<lambda>s. s @ ''.'') (take k ss))) + length (ss ! k)"
      by blast
    have a: "accumulate L r (s # ss) = r @ concat (map (\<lambda>s. s @ ''.'') (take (Suc k) (s # ss)))"
      using True k(2) by simp
    have b: "\<forall>j<Suc k. length r + length (concat (map (\<lambda>s. s @ ''.'') (take j (s # ss)))) + length ((s # ss) ! j) < L"
    proof (intro allI impI)
      fix j assume j: "j < Suc k"
      show "length r + length (concat (map (\<lambda>s. s @ ''.'') (take j (s # ss)))) + length ((s # ss) ! j) < L"
      proof (cases j)
        case 0
        then show ?thesis using True by simp
      next
        case (Suc j')
        then have "j' < k" using j by simp
        with k(3) have "length (r @ s @ ''.'') + length (concat (map (\<lambda>s. s @ ''.'') (take j' ss))) + length (ss ! j') < L"
          by blast
        then show ?thesis using Suc by (simp add: ac_simps)
      qed
    qed
    have c: "Suc k < length (s # ss) \<longrightarrow>
        L \<le> length r + length (concat (map (\<lambda>s. s @ ''.'') (take (Suc k) (s # ss)))) + length ((s # ss) ! Suc k)"
      using k(4) by (simp add: ac_simps)
    have "Suc k \<le> length (s # ss)" using k(1) by simp
    with a b c show ?thesis by blast
  qed
qed

lemma accumulate_stops_early:
  assumes "L < length t"
    and "k \<le> length (split_on CHR ''.'' t)"
    and "accumulate L [] (split_on CHR ''.'' t) =
           concat (map (\<lambda>s. s @ ''.'') (take k (split_on CHR ''.'' t)))"
  shows "k < length (split_on CHR ''.'' t)"
proof (rule ccontr)
  assume "\<not> k < length (split_on CHR ''.'' t)"
  with assms(2) have "k = length (split_on CHR ''.'' t)" by simp
  with assms(3) have "accumulate L [] (split_on CHR ''.'' t) = t @ ''.''"
    using concat_split_on [of "CHR ''.''" t] by simp
  moreover from accumulate_take [OF assms(1)] obtain k' where
    "accumulate L [] (split_on CHR ''.'' t) = take k' t" by blast
  ultimately have "length (t @ ''.'') = length (take k' t)" by simp
  then show False by simp
qed

lemma strip_sentences_not_Nil:
  assumes "0 < k" and "k \<le> length ss"
  shows "strip (concat (map (\<lambda>s. s @ ''.'') (take k ss))) \<noteq> []"
proof
  assume e: "strip (concat (map (\<lambda>s. s @ ''.'') (take k ss))) = []"
  from assms obtain s rest where t: "take k ss = s # rest"
    by (cases "take k ss") auto
  have mem: "CHR ''.'' \<in> set (concat (map (\<lambda>s. s @ ''.'') (take k ss)))"
    unfolding t by simp
  from e have "\<forall>c\<in>set (concat (map (\<lambda>s. s @ ''.'') (take k ss))). isspace c"
    by (simp only: strip_eq_Nil_iff)
  with mem have "isspace CHR ''.''" by blast
  with not_isspace_dot show False by blast
qed

lemma clean_text_long:
  assumes "max_length < length (normalize_ws t)"
  shows "\<exists>k<length (split_on CHR ''.'' (normalize_ws t)).
     (\<forall>j<k. length (concat (map (\<lambda>s. s @ ''.'') (take j (split_on CHR ''.'' (normalize_ws t)))))
               + length (split_on CHR ''.'' (normalize_ws t) ! j) < max_length) \<and>
     max_length \<le> length (concat (map (\<lambda>s. s @ ''.'') (take k (split_on CHR ''.'' (normalize_ws t)))))
               + length (split_on CHR ''.'' (normalize_ws t) ! k) \<and>
     clean_text t =
       (if k = 0 then strip (take max_length (normalize_ws t))
        else strip (concat (map (\<lambda>s. s @ ''.'') (take k (split_on CHR ''.'' (normalize_ws t))))))"
proof -
  let ?n = "normalize_ws t"
  let ?ss = "split_on CHR ''.'' ?n"
  let ?pre = "\<lambda>j. concat (map (\<lambda>s. s @ ''.'') (take j ?ss))"
  from accumulate_greedy [of ?ss max_length "[]"] obtain k where k: "k \<le> length ?ss"
    "accumulate max_length [] ?ss = ?pre k"
    "\<forall>j<k. length (?pre j) + length (?ss ! j) < max_length"
    "k < length ?ss \<longrightarrow> max_length \<le> length (?pre k) + length (?ss ! k)"
    by auto
  have lt: "k < length ?ss"
    by (rule accumulate_stops_early [OF assms k(1) k(2)])
  have ct: "clean_text t = (if k = 0 then strip (take max_length ?n) else strip (?pre k))"
  proof (cases "k = 0")
    case True
    then have "accumulate max_length [] ?ss = []" using k(2) by simp
    then show ?thesis
      using assms True by (simp add: clean_text_def strip_Nil)
  next
    case False
    then have "strip (?pre k) \<noteq> []"
      using strip_sentences_not_Nil [of k ?ss] k(1) by simp
    then show ?thesis
      using assms False k(2) by (simp add: clean_text_def strip_idem)
  qed
  from lt k(3) k(4) ct show ?thesis by blast
qed

text \<open>
  C8, as amended: the chunk has at most 500 characters. A normalized text of at most
  500 characters is emitted whole, stripped. On a longer one the sentences (the pieces
  between full stops) are taken greedily, each with its full stop, while the length
  taken so far plus the next sentence is below 500: the chunk is the first \<open>k\<close>
  sentences, stripped, where sentence \<open>k\<close> is the first that does not fit; that
  sentence and what follows it are dropped. Only when already the first sentence does
  not fit (\<open>k = 0\<close>) is the normalized text cut at 500 characters, and the cut text
  is stripped, so that the chunk can be shorter than 500.
\<close>

theorem clean_text_greedy_sentences:
  "length (clean_text t) \<le> 500 \<and>
   (length (normalize_ws t) \<le> 500 \<longrightarrow> clean_text t = strip (normalize_ws t)) \<and>
   (500 < length (normalize_ws t) \<longrightarrow>
      (\<exists>k<length (split_on CHR ''.'' (normalize_ws t)).
         (\<forall>j<k. length (concat (map (\<lambda>s. s @ ''.'') (take j (split_on CHR ''.'' (normalize_ws t)))))
                   + length (split_on CHR ''.'' (normalize_ws t) ! j) < 500) \<and>
         500 \<le> length (concat (map (\<lambda>s. s @ ''.'') (take k (split_on CHR ''.'' (normalize_ws t)))))
                   + length (split_on CHR ''.'' (normalize_ws t) ! k) \<and>
         clean_text t =
           (if k = 0 then strip (take 500 (normalize_ws t))
            else strip (concat (map (\<lambda>s. s @ ''.'') (take k (split_on CHR ''.'' (normalize_ws t))))))))"
  using length_clean_text_le [of t] clean_text_short [of t] clean_text_long [of t]
  unfolding max_length_def by blast

lemma isspace_space: "isspace CHR '' ''"
  by (simp add: isspace_def)

lemma normalize_ws_space_a:
  "normalize_ws (CHR '' '' # replicate n CHR ''a'') = CHR '' '' # replicate n CHR ''a''"
  by (simp add: normalize_ws_def isspace_space dropWhile_replicate re_sub_ws_id
      not_isspace_a replace_char_def)

lemma strip_space_a:
  "strip (CHR '' '' # replicate n CHR ''a'') = replicate n CHR ''a''"
  by (simp add: strip_def lstrip_def rstrip_def isspace_space dropWhile_replicate not_isspace_a)

lemma clean_text_space_a:
  "clean_text (CHR '' '' # replicate 600 CHR ''a'') = replicate 499 CHR ''a''"
proof -
  have "clean_text (CHR '' '' # replicate 600 CHR ''a'')
      = strip (take max_length (normalize_ws (CHR '' '' # replicate 600 CHR ''a'')))"
    by (rule clean_text_long_sentence)
      (simp_all add: normalize_ws_space_a hd_split_on max_length_def)
  then show ?thesis
    by (simp add: normalize_ws_space_a max_length_def strip_space_a)
qed

lemma split_on_a_dot:
  "split_on CHR ''.'' (CHR ''a'' # CHR ''.'' # replicate n CHR ''a'') = [''a'', replicate n CHR ''a'']"
proof -
  have "split_on CHR ''.'' (replicate n CHR ''a'') = [replicate n CHR ''a'']"
    by (subst split_on.simps) (simp add: dropWhile_replicate)
  then show ?thesis
    by (subst split_on.simps) simp
qed

lemma normalize_ws_a_dot:
  "normalize_ws (CHR ''a'' # CHR ''.'' # replicate n CHR ''a'') = CHR ''a'' # CHR ''.'' # replicate n CHR ''a''"
  by (simp add: normalize_ws_def re_sub_ws_id not_isspace_a not_isspace_dot replace_char_def)

lemma strip_a_dot: "strip ''a.'' = ''a.''"
  by (simp add: strip_def lstrip_def rstrip_def not_isspace_a not_isspace_dot)

lemma clean_text_a_dot:
  "clean_text (CHR ''a'' # CHR ''.'' # replicate 501 CHR ''a'') = ''a.''"
proof -
  have "clean_text (CHR ''a'' # CHR ''.'' # replicate 501 CHR ''a'')
      = strip (accumulate max_length []
          (split_on CHR ''.'' (normalize_ws (CHR ''a'' # CHR ''.'' # replicate 501 CHR ''a''))))"
    by (rule clean_text_fitting_sentence)
      (simp_all add: normalize_ws_a_dot split_on_a_dot max_length_def)
  then show ?thesis
    by (simp add: normalize_ws_a_dot split_on_a_dot max_length_def strip_a_dot)
qed

text \<open>
  C8 as stated fails. A single sentence of 601 characters that starts with a space is
  cut at 500 and stripped to 499 characters, not exactly 500. A sentence of 501
  characters after a short first sentence is dropped, not cut: the chunk is the first
  sentence alone.
\<close>

theorem clean_text_exactly_L_counterexample:
  "length (normalize_ws (CHR '' '' # replicate 600 CHR ''a'')) = 601 \<and>
   split_on CHR ''.'' (normalize_ws (CHR '' '' # replicate 600 CHR ''a''))
     = [CHR '' '' # replicate 600 CHR ''a''] \<and>
   clean_text (CHR '' '' # replicate 600 CHR ''a'') = replicate 499 CHR ''a'' \<and>
   length (clean_text (CHR '' '' # replicate 600 CHR ''a'')) \<noteq> 500 \<and>
   split_on CHR ''.'' (normalize_ws (CHR ''a'' # CHR ''.'' # replicate 501 CHR ''a''))
     = [''a'', replicate 501 CHR ''a''] \<and>
   clean_text (CHR ''a'' # CHR ''.'' # replicate 501 CHR ''a'') = ''a.''"
proof -
  have "split_on CHR ''.'' (CHR '' '' # replicate 600 CHR ''a'') = [CHR '' '' # replicate 600 CHR ''a'']"
    by (subst split_on.simps) (simp add: dropWhile_replicate)
  then show ?thesis
    by (simp add: normalize_ws_space_a clean_text_space_a normalize_ws_a_dot split_on_a_dot
        clean_text_a_dot)
qed

text \<open>
  A short text, emitted whole, and a long one, where the theorem fixes \<open>k = 1\<close>.
\<close>

theorem clean_text_greedy_sentences_witness:
  "length (normalize_ws ''  Hello   world.  Bye '') \<le> 500 \<and>
   clean_text ''  Hello   world.  Bye '' = ''Hello world. Bye'' \<and>
   500 < length (normalize_ws (CHR ''a'' # CHR ''.'' # replicate 501 CHR ''a'')) \<and>
   clean_text (CHR ''a'' # CHR ''.'' # replicate 501 CHR ''a'') = ''a.'' \<and>
   length (clean_text (CHR ''a'' # CHR ''.'' # replicate 501 CHR ''a'')) \<le> 500"
proof -
  let ?t1 = "''  Hello   world.  Bye ''"
  let ?t2 = "CHR ''a'' # CHR ''.'' # replicate 501 CHR ''a''"
  let ?ss = "split_on CHR ''.'' (normalize_ws ?t2)"
  have ss: "?ss = [''a'', replicate 501 CHR ''a'']"
    by (simp add: normalize_ws_a_dot split_on_a_dot)
  have h1: "length (normalize_ws ?t1) \<le> 500"
    by (simp add: normalize_ws_hello strip_hello)
  have h2: "500 < length (normalize_ws ?t2)"
    by (simp add: normalize_ws_a_dot)
  from clean_text_greedy_sentences [of ?t1] h1
  have c1: "clean_text ?t1 = ''Hello world. Bye''"
    by (simp add: normalize_ws_hello strip_hello)
  from clean_text_greedy_sentences [of ?t2] h2 obtain k where
    k: "k < length ?ss"
      "500 \<le> length (concat (map (\<lambda>s. s @ ''.'') (take k ?ss))) + length (?ss ! k)"
      "clean_text ?t2 = (if k = 0 then strip (take 500 (normalize_ws ?t2))
          else strip (concat (map (\<lambda>s. s @ ''.'') (take k ?ss))))"
    by blast
  from k(1) have "k = 0 \<or> k = 1" unfolding ss by auto
  moreover have "k \<noteq> 0"
  proof
    assume "k = 0"
    with k(2) show False unfolding ss by simp
  qed
  ultimately have k1: "k = 1" by simp
  have c2: "clean_text ?t2 = ''a.''"
    using k(3) unfolding ss k1 by (simp add: strip_a_dot)
  from clean_text_greedy_sentences [of ?t2]
  have c3: "length (clean_text ?t2) \<le> 500" by blast
  show ?thesis
    by (intro conjI) (rule h1, rule c1, rule h2, rule c2, rule c3)
qed

section \<open>Properties of the routes on books and highlights\<close>

lemma swallowed_HTTPException:
  "except_ValueError_Exception (Inl (HTTPException status)) = Http 500"
  by (simp add: except_ValueError_Exception_def)

text \<open>
  C3: for every well-formed id, of a stored book or not, the route answers 500 and
  writes nothing: \<open>database.func\<close> raises \<open>AttributeError\<close> inside the \<open>try\<close>, and
  \<open>except Exception\<close> answers 500. The position is never overwritten, and no id is
  answered 404.
\<close>

theorem update_reading_position_answers_500:
  "UUID bid = Some u \<Longrightarrow> update_reading_position UUID db bid pos = (Http 500, db)"
  by (simp add: update_reading_position_def database_func_now_def
      except_ValueError_Exception_def)

text \<open>
  The same at the id of the one stored book.
\<close>

theorem update_reading_position_answers_500_witness:
  "(\<lambda>s. if s = ''00000000-0000-0000-0000-000000000001'' then Some 1 else None)
     ''00000000-0000-0000-0000-000000000001'' = Some (1::nat) \<and>
   update_reading_position
     (\<lambda>s. if s = ''00000000-0000-0000-0000-000000000001'' then Some 1 else None)
     [\<lparr>b_id = 1, b_file_type = ''pdf'', b_last_read = None,
       b_current_position = None, b_chapters = [], b_pages = []\<rparr>]
     ''00000000-0000-0000-0000-000000000001'' [(''page'', ''3'')]
   = (Http 500, [\<lparr>b_id = 1, b_file_type = ''pdf'', b_last_read = None,
       b_current_position = None, b_chapters = [], b_pages = []\<rparr>])"
proof -
  let ?U = "\<lambda>s. if s = ''00000000-0000-0000-0000-000000000001'' then Some (1::nat) else None"
  have h1: "?U ''00000000-0000-0000-0000-000000000001'' = Some 1" by simp
  from update_reading_position_answers_500 [of ?U, OF h1]
  show ?thesis using h1 by blast
qed

text \<open>
  C7: \<open>delete_highlight\<close> on a well-formed id of no stored highlight answers 200 with
  the message of success: the value of \<open>database.execute\<close> is \<open>None\<close>, the test
  \<open>result == 0\<close> is false and the 404 is not raised. The table is unchanged.
\<close>

theorem delete_highlight_unmatched_id:
  "UUID highlight_id = Some u \<Longrightarrow> u \<notin> h_id ` set db \<Longrightarrow>
   delete_highlight UUID db highlight_id = (Ok (), db)"
proof -
  assume a: "UUID highlight_id = Some u" and b: "u \<notin> h_id ` set db"
  from b have "\<forall>r\<in>set db. \<not> h_id r = u" by auto
  then have "filter (\<lambda>h. \<not> h_id h = u) db = db"
    by (simp add: filter_id_conv)
  then show ?thesis
    using a
    by (simp add: delete_highlight_def execute_delete_def except_ValueError_Exception_def)
qed

text \<open>
  The same at a table of one highlight and the id of another.
\<close>

theorem delete_highlight_unmatched_id_witness:
  "(\<lambda>s. if s = ''00000000-0000-0000-0000-000000000009'' then Some 9 else None)
     ''00000000-0000-0000-0000-000000000009'' = Some (9::nat) \<and>
   (9::nat) \<notin> h_id ` set [\<lparr>h_id = 4, h_book_id = 1, h_text_content = ''call me'',
       h_color = ''#ffff00'', h_note = None, h_created_at = 10\<rparr>] \<and>
   delete_highlight
     (\<lambda>s. if s = ''00000000-0000-0000-0000-000000000009'' then Some 9 else None)
     [\<lparr>h_id = 4, h_book_id = 1, h_text_content = ''call me'',
       h_color = ''#ffff00'', h_note = None, h_created_at = 10\<rparr>]
     ''00000000-0000-0000-0000-000000000009''
   = (Ok (), [\<lparr>h_id = 4, h_book_id = 1, h_text_content = ''call me'',
       h_color = ''#ffff00'', h_note = None, h_created_at = 10\<rparr>])"
proof -
  let ?U = "\<lambda>s. if s = ''00000000-0000-0000-0000-000000000009'' then Some (9::nat) else None"
  let ?db = "[\<lparr>h_id = 4, h_book_id = 1, h_text_content = ''call me'',
       h_color = ''#ffff00'', h_note = None, h_created_at = 10\<rparr>]"
  have h1: "?U ''00000000-0000-0000-0000-000000000009'' = Some 9" by simp
  have h2: "(9::nat) \<notin> h_id ` set ?db" by simp
  from delete_highlight_unmatched_id [of ?U, OF h1 h2]
  show ?thesis using h1 h2 by blast
qed

text \<open>
  Neither route answers 404 on any input; a 404 raised inside their \<open>try\<close> would be
  caught by \<open>except Exception\<close>.
\<close>

lemma delete_highlight_never_404:
  "fst (delete_highlight UUID db highlight_id) \<noteq> Http 404"
  by (simp add: delete_highlight_def execute_delete_def except_ValueError_Exception_def
      split: option.split)

lemma update_reading_position_never_404:
  "fst (update_reading_position UUID db bid pos) \<noteq> Http 404"
  by (simp add: update_reading_position_def database_func_now_def
      except_ValueError_Exception_def split: option.split)

lemma py_split_hello: "py_split ''hello'' = [''hello'']"
  by code_simp

lemma strip_hello_word: "strip ''hello'' = ''hello''"
  by code_simp

lemma process_pdf_pages_example:
  "process_pdf_pages ['''', ''hello''] =
     [\<lparr>page_number = 2, page_content = ''hello'', word_count = 1\<rparr>]"
  by (simp add: process_pdf_pages_def strip_Nil strip_hello_word py_split_hello)

text \<open>
  C4: a container of a blank page followed by a page of text. The page kept carries
  the number 2 of the container, not 1; the content route serves it as page 1 and
  answers 404 for page 2, the number it lists.
\<close>

theorem pdf_page_number_differs_from_index:
  "process_pdf_pages ['''', ''hello''] =
     [\<lparr>page_number = 2, page_content = ''hello'', word_count = 1\<rparr>] \<and>
   get_book_content
     (\<lambda>s. if s = ''00000000-0000-0000-0000-000000000001'' then Some 1 else None)
     [\<lparr>b_id = 1, b_file_type = ''pdf'', b_last_read = None, b_current_position = None,
       b_chapters = [], b_pages = process_pdf_pages ['''', ''hello'']\<rparr>]
     ''00000000-0000-0000-0000-000000000001'' None (Some 1)
   = Ok (PageReply \<lparr>page_number = 2, page_content = ''hello'', word_count = 1\<rparr>) \<and>
   get_book_content
     (\<lambda>s. if s = ''00000000-0000-0000-0000-000000000001'' then Some 1 else None)
     [\<lparr>b_id = 1, b_file_type = ''pdf'', b_last_read = None, b_current_position = None,
       b_chapters = [], b_pages = process_pdf_pages ['''', ''hello'']\<rparr>]
     ''00000000-0000-0000-0000-000000000001'' None (Some 2)
   = Http 404"
  by (simp add: process_pdf_pages_example get_book_content_def
      except_ValueError_HTTPException_Exception_def)

subsection \<open>The order of the highlight listings\<close>

lemma sorted_order_by_asc: "sorted (map col (order_by_asc col rows))"
  by (simp add: order_by_asc_def)

lemma sorted_order_by_desc: "sorted_wrt (\<lambda>a b. a \<ge> b) (map col (order_by_desc col rows))"
proof -
  have "sorted_wrt (\<lambda>a b. a \<ge> b) (rev (map col (sort_key col rows)))"
    by (simp add: sorted_wrt_rev)
  then show ?thesis by (simp add: order_by_desc_def rev_map)
qed

lemma mset_order_by_asc: "mset (order_by_asc col rows) = mset rows"
  by (simp add: order_by_asc_def)

lemma mset_order_by_desc: "mset (order_by_desc col rows) = mset rows"
  by (simp add: order_by_desc_def)

text \<open>
  C9: for a well-formed book id the listing of the book holds exactly the highlights
  of that book, in non-decreasing order of \<open>created_at\<close>; the listing of all
  highlights holds every row, in non-increasing order of \<open>created_at\<close>.
\<close>

theorem highlight_listings_ordered:
  "(UUID bid = Some u \<longrightarrow>
      (\<exists>rows. get_book_highlights UUID db bid = Ok rows \<and>
              sorted_wrt (\<lambda>a b. a \<le> b) (map h_created_at rows) \<and>
              mset rows = mset (filter (\<lambda>h. h_book_id h = u) db))) \<and>
   (\<exists>rows. get_all_highlights db = Ok rows \<and>
           sorted_wrt (\<lambda>a b. a \<ge> b) (map h_created_at rows) \<and>
           mset rows = mset db)"
proof (intro conjI impI)
  assume "UUID bid = Some u"
  then have eq: "get_book_highlights UUID db bid =
      Ok (order_by_asc h_created_at (filter (\<lambda>h. h_book_id h = u) db))"
    by (simp add: get_book_highlights_def except_ValueError_Exception_def)
  show "\<exists>rows. get_book_highlights UUID db bid = Ok rows \<and>
      sorted_wrt (\<lambda>a b. a \<le> b) (map h_created_at rows) \<and>
      mset rows = mset (filter (\<lambda>h. h_book_id h = u) db)"
  proof (intro exI conjI)
    show "get_book_highlights UUID db bid =
      Ok (order_by_asc h_created_at (filter (\<lambda>h. h_book_id h = u) db))"
      by (rule eq)
    show "sorted (map h_created_at
        (order_by_asc h_created_at (filter (\<lambda>h. h_book_id h = u) db)))"
      by (rule sorted_order_by_asc)
    show "mset (order_by_asc h_created_at (filter (\<lambda>h. h_book_id h = u) db)) =
        mset (filter (\<lambda>h. h_book_id h = u) db)"
      by (rule mset_order_by_asc)
  qed
next
  have eq: "get_all_highlights db = Ok (order_by_desc h_created_at db)"
    by (simp add: get_all_highlights_def except_Exception_def)
  show "\<exists>rows. get_all_highlights db = Ok rows \<and>
      sorted_wrt (\<lambda>a b. a \<ge> b) (map h_created_at rows) \<and> mset rows = mset db"
  proof (intro exI conjI)
    show "get_all_highlights db = Ok (order_by_desc h_created_at db)"
      by (rule eq)
    show "sorted_wrt (\<lambda>a b. a \<ge> b) (map h_created_at (order_by_desc h_created_at db))"
      by (rule sorted_order_by_desc)
    show "mset (order_by_desc h_created_at db) = mset db"
      by (rule mset_order_by_desc)
  qed
qed

text \<open>
  Three highlights, two of book 1: oldest first for the book, newest first for all.
\<close>

theorem highlight_listings_ordered_witness:
  "(\<lambda>s. if s = ''00000000-0000-0000-0000-000000000001'' then Some 1 else None)
      ''00000000-0000-0000-0000-000000000001'' = Some (1::nat) \<and>
   (\<exists>rows. get_book_highlights
      (\<lambda>s. if s = ''00000000-0000-0000-0000-000000000001'' then Some 1 else None)
      [\<lparr>h_id = 5, h_book_id = 1, h_text_content = ''b'', h_color = ''#ffff00'',
         h_note = None, h_created_at = 20\<rparr>,
       \<lparr>h_id = 4, h_book_id = 1, h_text_content = ''a'', h_color = ''#ffff00'',
         h_note = None, h_created_at = 10\<rparr>,
       \<lparr>h_id = 6, h_book_id = 2, h_text_content = ''c'', h_color = ''#ffff00'',
         h_note = None, h_created_at = 15\<rparr>]
      ''00000000-0000-0000-0000-000000000001'' = Ok rows \<and>
      sorted_wrt (\<lambda>a b. a \<le> b) (map h_created_at rows)) \<and>
   get_book_highlights
     (\<lambda>s. if s = ''00000000-0000-0000-0000-000000000001'' then Some 1 else None)
     [\<lparr>h_id = 5, h_book_id = 1, h_text_content = ''b'', h_color = ''#ffff00'',
        h_note = None, h_created_at = 20\<rparr>,
      \<lparr>h_id = 4, h_book_id = 1, h_text_content = ''a'', h_color = ''#ffff00'',
        h_note = None, h_created_at = 10\<rparr>,
      \<lparr>h_id = 6, h_book_id = 2, h_text_content = ''c'', h_color = ''#ffff00'',
        h_note = None, h_created_at = 15\<rparr>]
     ''00000000-0000-0000-0000-000000000001''
   = Ok [\<lparr>h_id = 4, h_book_id = 1, h_text_content = ''a'', h_color = ''#ffff00'',
        h_note = None, h_created_at = 10\<rparr>,
      \<lparr>h_id = 5, h_book_id = 1, h_text_content = ''b'', h_color = ''#ffff00'',
        h_note = None, h_created_at = 20\<rparr>] \<and>
   get_all_highlights
     [\<lparr>h_id = 5, h_book_id = 1, h_text_content = ''b'', h_color = ''#ffff00'',
        h_note = None, h_created_at = 20\<rparr>,
      \<lparr>h_id = 4, h_book_id = 1, h_text_content = ''a'', h_color = ''#ffff00'',
        h_note = None, h_created_at = 10\<rparr>,
      \<lparr>h_id = 6, h_book_id = 2, h_text_content = ''c'', h_color = ''#ffff00'',
        h_note = None, h_created_at = 15\<rparr>]
   = Ok [\<lparr>h_id = 5, h_book_id = 1, h_text_content = ''b'', h_color = ''#ffff00'',
        h_note = None, h_created_at = 20\<rparr>,
      \<lparr>h_id = 6, h_book_id = 2, h_text_content = ''c'', h_color = ''#ffff00'',
        h_note = None, h_created_at = 15\<rparr>,
      \<lparr>h_id = 4, h_book_id = 1, h_text_content = ''a'', h_color = ''#ffff00'',
        h_note = None, h_created_at = 10\<rparr>]"
proof -
  let ?U = "\<lambda>s. if s = ''00000000-0000-0000-0000-000000000001'' then Some (1::nat) else None"
  let ?a = "\<lparr>h_id = 4, h_book_id = 1, h_text_content = ''a'', h_color = ''#ffff00'',
        h_note = None, h_created_at = 10\<rparr>"
  let ?b = "\<lparr>h_id = 5, h_book_id = 1, h_text_content = ''b'', h_color = ''#ffff00'',
        h_note = None, h_created_at = 20\<rparr>"
  let ?c = "\<lparr>h_id = 6, h_book_id = 2, h_text_content = ''c'', h_color = ''#ffff00'',
        h_note = None, h_created_at = 15\<rparr>"
  have h: "?U ''00000000-0000-0000-0000-000000000001'' = Some 1" by simp
  from highlight_listings_ordered
         [of ?U "''00000000-0000-0000-0000-000000000001''" 1 "[?b, ?a, ?c]"] h
  have ex: "\<exists>rows. get_book_highlights ?U [?b, ?a, ?c]
      ''00000000-0000-0000-0000-000000000001'' = Ok rows \<and>
      sorted_wrt (\<lambda>a b. a \<le> b) (map h_created_at rows)"
    by blast
  have e1: "get_book_highlights ?U [?b, ?a, ?c] ''00000000-0000-0000-0000-000000000001''
      = Ok [?a, ?b]"
    by (simp add: get_book_highlights_def except_ValueError_Exception_def order_by_asc_def)
  have e2: "get_all_highlights [?b, ?a, ?c] = Ok [?b, ?c, ?a]"
    by (simp add: get_all_highlights_def except_Exception_def order_by_desc_def)
  show ?thesis
    by (intro conjI) (rule h, rule ex, rule e1, rule e2)
qed

subsection \<open>The validation of an upload\<close>

text \<open>
  C6, as amended: the upload is answered 400 exactly when no filename is given (\<open>None\<close>
  or empty), or the lower-cased part of the filename after its last full stop (the whole
  filename when it has none) is neither \<open>epub\<close> nor \<open>pdf\<close>, or the content is empty, or
  the content is longer than 100 MiB.
\<close>

theorem upload_book_rejected_iff:
  "(upload_book process insert_book filename content = Http 400) =
   (case filename of
      None \<Rightarrow> True
    | Some name \<Rightarrow>
        name = [] \<or> file_ext name \<notin> {''epub'', ''pdf''} \<or> content = [] \<or>
        100 * 1024 * 1024 < length content)"
  by (simp add: upload_book_def except_HTTPException_Exception_def
      split: option.split sum.split)

lemma file_ext_examples:
  "file_ext ''Moby.Dick.EPUB'' = ''epub''" "file_ext ''notes.txt'' = ''txt''"
  "file_ext ''pdf'' = ''pdf''"
  by code_simp+

text \<open>
  An accepted upload and three rejected ones.
\<close>

theorem upload_book_rejected_iff_witness:
  "upload_book (\<lambda>c n. Inr (length c)) (\<lambda>b. Inr ()) (Some ''Moby.Dick.EPUB'') ''x'' \<noteq> Http 400 \<and>
   upload_book (\<lambda>c n. Inr (length c)) (\<lambda>b. Inr ()) (Some ''notes.txt'') ''x'' = Http 400 \<and>
   upload_book (\<lambda>c n. Inr (length c)) (\<lambda>b. Inr ()) (Some ''Moby.Dick.EPUB'') [] = Http 400 \<and>
   upload_book (\<lambda>c n. Inr (length c)) (\<lambda>b. Inr ()) None ''x'' = Http 400"
  using upload_book_rejected_iff [of "\<lambda>c n. Inr (length c)" "\<lambda>b. Inr ()" "Some ''Moby.Dick.EPUB''" "''x''"]
    upload_book_rejected_iff [of "\<lambda>c n. Inr (length c)" "\<lambda>b. Inr ()" "Some ''notes.txt''" "''x''"]
    upload_book_rejected_iff [of "\<lambda>c n. Inr (length c)" "\<lambda>b. Inr ()" "Some ''Moby.Dick.EPUB''" "[]"]
    upload_book_rejected_iff [of "\<lambda>c n. Inr (length c)" "\<lambda>b. Inr ()" None "''x''"]
  by (simp add: file_ext_examples)

text \<open>
  C6 as stated fails: the filename \<open>pdf\<close> has no extension, and the upload passes the
  validation; it reaches \<open>process\<close>, whose failure is a 500 and whose success is a 200.
\<close>

theorem upload_book_no_extension_counterexample:
  "CHR ''.'' \<notin> set ''pdf'' \<and>
   upload_book (\<lambda>c n. Inl RuntimeError) (\<lambda>b. Inr ()) (Some ''pdf'') ''x'' = (Http 500 :: unit response) \<and>
   upload_book (\<lambda>c n. Inr ()) (\<lambda>b. Inr ()) (Some ''pdf'') ''x'' = Ok ()"
  by (simp add: upload_book_def except_HTTPException_Exception_def file_ext_examples)

section \<open>Properties of the speech service and its route\<close>





lemma clean_text_Hi: "clean_text ''Hi.'' = ''Hi.''" "strip ''Hi.'' = ''Hi.''"
  "clean_text ''   '' = []" "strip [] = []" "strip ''   '' = []"
  by code_simp+


lemma synth_chunks_calls:
  "synth_chunks eng preset chunks acc calls = (r, calls') \<Longrightarrow>
   \<exists>new. calls' = calls @ new \<and>
     (\<forall>audio. r = Inr audio \<longrightarrow> length audio = length acc + length new)"
proof (induction chunks arbitrary: acc calls)
  case Nil
  then show ?case by auto
next
  case (Cons chunk chunks)
  show ?case
  proof (cases "strip chunk = []")
    case True
    with Cons show ?thesis by simp
  next
    case False
    show ?thesis
    proof (cases "eng chunk preset")
      case (Inl e)
      with False Cons.prems show ?thesis by auto
    next
      case (Inr gen)
      with False Cons.prems have
        "synth_chunks eng preset chunks (acc @ [gen]) (calls @ [(chunk, preset)]) = (r, calls')"
        by simp
      from Cons.IH [OF this] obtain new where
        "calls' = (calls @ [(chunk, preset)]) @ new"
        "\<forall>audio. r = Inr audio \<longrightarrow> length audio = length (acc @ [gen]) + length new"
        by blast
      then have "calls' = calls @ ((chunk, preset) # new) \<and>
        (\<forall>audio. r = Inr audio \<longrightarrow> length audio = length acc + length ((chunk, preset) # new))"
        by simp
      then show ?thesis by blast
    qed
  qed
qed

text \<open>
  C1: \<open>text_to_speech\<close> has no cache: it takes and returns no store of artifacts, and
  a call that returns audio has invoked the engine in that very call, whatever was
  synthesized before.
\<close>

theorem text_to_speech_always_synthesizes:
  "fst (text_to_speech sp ab self text0 voice preset calls) = Some b \<Longrightarrow>
   \<exists>new. new \<noteq> [] \<and> snd (text_to_speech sp ab self text0 voice preset calls) = calls @ new"
proof -
  assume a: "fst (text_to_speech sp ab self text0 voice preset calls) = Some b"
  then obtain eng chunks audio calls' where
    s: "synth_chunks eng preset chunks [] calls = (Inr audio, calls')" "audio \<noteq> []"
      "snd (text_to_speech sp ab self text0 voice preset calls) = calls'"
    by (auto simp: text_to_speech_def Let_def
        split: if_splits sum.splits option.splits prod.splits)
  from synth_chunks_calls [OF s(1)] obtain new where
    "calls' = calls @ new" "length audio = length new"
    by auto
  with s(2,3) have "new \<noteq> [] \<and> snd (text_to_speech sp ab self text0 voice preset calls) = calls @ new"
    by auto
  then show ?thesis by blast
qed

text \<open>
  Two calls with the same text, voice and preset: the engine is invoked in both.
\<close>

theorem text_to_speech_always_synthesizes_witness:
  "text_to_speech (\<lambda>t. Inr [t]) (\<lambda>w. Inr ''RIFF'')
     \<lparr>TORTOISE_AVAILABLE = True, tts = Some (\<lambda>c p. Inr [0])\<rparr> ''Hi.'' ''emma'' ''fast'' []
   = (Some ''RIFF'', [(''Hi.'', ''fast'')]) \<and>
   text_to_speech (\<lambda>t. Inr [t]) (\<lambda>w. Inr ''RIFF'')
     \<lparr>TORTOISE_AVAILABLE = True, tts = Some (\<lambda>c p. Inr [0])\<rparr> ''Hi.'' ''emma'' ''fast''
     [(''Hi.'', ''fast'')]
   = (Some ''RIFF'', [(''Hi.'', ''fast''), (''Hi.'', ''fast'')]) \<and>
   (\<exists>new. new \<noteq> [] \<and>
      snd (text_to_speech (\<lambda>t. Inr [t]) (\<lambda>w. Inr ''RIFF'')
        \<lparr>TORTOISE_AVAILABLE = True, tts = Some (\<lambda>c p. Inr [0])\<rparr> ''Hi.'' ''emma'' ''fast''
        [(''Hi.'', ''fast'')]) = [(''Hi.'', ''fast'')] @ new)"
proof -
  let ?sp = "\<lambda>t::string. (Inr [t] :: exn + string list)"
  let ?ab = "\<lambda>w::waveform. (Inr ''RIFF'' :: exn + bytes)"
  let ?ok = "\<lparr>TORTOISE_AVAILABLE = True, tts = Some (\<lambda>c p. Inr [0])\<rparr>"
  have e1: "text_to_speech ?sp ?ab ?ok ''Hi.'' ''emma'' ''fast'' [] = (Some ''RIFF'', [(''Hi.'', ''fast'')])"
    by (simp add: text_to_speech_def is_available_def clean_text_Hi Let_def)
  have e2: "text_to_speech ?sp ?ab ?ok ''Hi.'' ''emma'' ''fast'' [(''Hi.'', ''fast'')]
      = (Some ''RIFF'', [(''Hi.'', ''fast''), (''Hi.'', ''fast'')])"
    by (simp add: text_to_speech_def is_available_def clean_text_Hi Let_def)
  have h: "fst (text_to_speech ?sp ?ab ?ok ''Hi.'' ''emma'' ''fast'' [(''Hi.'', ''fast'')]) = Some ''RIFF''"
    by (simp only: e2 fst_conv)
  have e3: "\<exists>new. new \<noteq> [] \<and>
      snd (text_to_speech ?sp ?ab ?ok ''Hi.'' ''emma'' ''fast'' [(''Hi.'', ''fast'')])
        = [(''Hi.'', ''fast'')] @ new"
    by (rule text_to_speech_always_synthesizes [OF h])
  show ?thesis
    by (intro conjI) (rule e1, rule e2, rule e3)
qed

text \<open>
  C5, as amended: the route first answers 503 when the service could not be loaded or
  is not available, whatever the text; with an available service it answers 400 when
  the stripped text is empty or the text has more than 1000 characters; otherwise it
  answers 500 when \<open>text_to_speech\<close> returns \<open>None\<close>.
\<close>

theorem generate_tts_statuses:
  "((case imported of Inl e \<Rightarrow> True | Inr s \<Rightarrow> \<not> is_available s) \<longrightarrow>
      fst (generate_tts sp ab imported text0 voice preset calls) = Http 503) \<and>
   (imported = Inr service \<and> is_available service \<and>
    (strip text0 = [] \<or> 1000 < length text0) \<longrightarrow>
      fst (generate_tts sp ab imported text0 voice preset calls) = Http 400) \<and>
   (imported = Inr service \<and> is_available service \<and>
    strip text0 \<noteq> [] \<and> length text0 \<le> 1000 \<and>
    fst (text_to_speech sp ab service text0 voice preset calls) = None \<longrightarrow>
      fst (generate_tts sp ab imported text0 voice preset calls) = Http 500)"
  by (auto simp: generate_tts_def get_tts_service_def except_HTTPException_Exception_def
      split: sum.splits prod.splits option.splits)

text \<open>
  One request for each of the four cases.
\<close>

theorem generate_tts_statuses_witness:
  "fst (generate_tts (\<lambda>t. Inr [t]) (\<lambda>w. Inr ''RIFF'') (Inl NameError) ''Hi.'' ''random'' ''fast'' [])
     = Http 503 \<and>
   fst (generate_tts (\<lambda>t. Inr [t]) (\<lambda>w. Inr ''RIFF'')
          (Inr \<lparr>TORTOISE_AVAILABLE = True, tts = Some (\<lambda>c p. Inr [0])\<rparr>)
          ''   '' ''random'' ''fast'' []) = Http 400 \<and>
   fst (generate_tts (\<lambda>t. Inr [t]) (\<lambda>w. Inr ''RIFF'')
          (Inr \<lparr>TORTOISE_AVAILABLE = True, tts = Some (\<lambda>c p. Inr [0])\<rparr>)
          (replicate 1001 CHR ''a'') ''random'' ''fast'' []) = Http 400 \<and>
   fst (generate_tts (\<lambda>t. Inr [t]) (\<lambda>w. Inr ''RIFF'')
          (Inr \<lparr>TORTOISE_AVAILABLE = True, tts = Some (\<lambda>c p. Inl RuntimeError)\<rparr>)
          ''Hi.'' ''random'' ''fast'' []) = Http 500"
proof -
  let ?sp = "\<lambda>t::string. (Inr [t] :: exn + string list)"
  let ?ab = "\<lambda>w::waveform. (Inr ''RIFF'' :: exn + bytes)"
  let ?ok = "\<lparr>TORTOISE_AVAILABLE = True, tts = Some (\<lambda>c p. Inr [0])\<rparr>"
  let ?bad = "\<lparr>TORTOISE_AVAILABLE = True, tts = Some (\<lambda>c p. Inl RuntimeError)\<rparr>"
  have ok: "is_available ?ok" and bad: "is_available ?bad"
    by (simp_all add: is_available_def)
  have h1: "case (Inl NameError :: exn + tts_service) of Inl e \<Rightarrow> True | Inr s \<Rightarrow> \<not> is_available s"
    by simp
  have h2: "strip ''   '' = [] \<or> 1000 < length ''   ''"
    by (simp add: clean_text_Hi)
  have h3: "strip (replicate 1001 CHR ''a'') = [] \<or> 1000 < length (replicate 1001 CHR ''a'')"
    by simp
  have h4: "strip ''Hi.'' \<noteq> [] \<and> length ''Hi.'' \<le> 1000 \<and>
      fst (text_to_speech ?sp ?ab ?bad ''Hi.'' ''random'' ''fast'' []) = None"
    by (simp add: text_to_speech_def is_available_def clean_text_Hi Let_def)
  have c1: "fst (generate_tts ?sp ?ab (Inl NameError) ''Hi.'' ''random'' ''fast'' []) = Http 503"
    using generate_tts_statuses [where imported = "Inl NameError"] h1 by blast
  have c2: "fst (generate_tts ?sp ?ab (Inr ?ok) ''   '' ''random'' ''fast'' []) = Http 400"
    using generate_tts_statuses [where imported = "Inr ?ok" and service = ?ok and ?text0.0 = "''   ''"] ok h2
    by blast
  have c3: "fst (generate_tts ?sp ?ab (Inr ?ok) (replicate 1001 CHR ''a'') ''random'' ''fast'' []) = Http 400"
    using generate_tts_statuses
      [where imported = "Inr ?ok" and service = ?ok and ?text0.0 = "replicate 1001 CHR ''a''"] ok h3
    by blast
  have c4: "fst (generate_tts ?sp ?ab (Inr ?bad) ''Hi.'' ''random'' ''fast'' []) = Http 500"
    using generate_tts_statuses
      [where imported = "Inr ?bad" and service = ?bad and ?text0.0 = "''Hi.''" and sp = ?sp
         and ab = ?ab and voice = "''random''" and preset = "''fast''" and calls = "[]"] bad h4
    by blast
  show ?thesis
    by (intro conjI) (rule c1, rule c2, rule c3, rule c4)
qed

text \<open>
  C5 as stated fails: the empty text, and a text of 1001 characters, are answered 503,
  not 400, when the service is not available.
\<close>

theorem generate_tts_empty_text_counterexample:
  "fst (generate_tts (\<lambda>t. Inr [t]) (\<lambda>w. Inr ''RIFF'')
          (Inr \<lparr>TORTOISE_AVAILABLE = False, tts = None\<rparr>) [] ''random'' ''fast'' []) = Http 503 \<and>
   fst (generate_tts (\<lambda>t. Inr [t]) (\<lambda>w. Inr ''RIFF'')
          (Inr \<lparr>TORTOISE_AVAILABLE = False, tts = None\<rparr>) [] ''random'' ''fast'' []) \<noteq> Http 400 \<and>
   fst (generate_tts (\<lambda>t. Inr [t]) (\<lambda>w. Inr ''RIFF'')
          (Inl NameError) (replicate 1001 CHR ''a'') ''random'' ''fast'' []) = Http 503"
  by (simp add: generate_tts_def get_tts_service_def is_available_def
      except_HTTPException_Exception_def)

end
